theory Spec2Isabelle
  imports Complex_Main "HOL-Library.AList"
begin

section \<open>Python values used by evaluation.py\<close>

text \<open>
  The exceptions the script can raise while it parses and scores: a list index out of
  range, \<open>int()\<close> on a text that is no integer, a dictionary key that is absent,
  \<open>list.index\<close> of an absent value (a \<open>ValueError\<close> too) and a division by zero.
\<close>

datatype error = IndexError | ValueError | KeyError | ZeroDivisionError

definition bind_res :: "error + 'a \<Rightarrow> ('a \<Rightarrow> error + 'b) \<Rightarrow> error + 'b" where
  "bind_res r f = (case r of Inl e \<Rightarrow> Inl e | Inr x \<Rightarrow> f x)"

text \<open>\<open>xs[i]\<close> for an index that is never negative: out of range raises.\<close>

definition nth_py :: "'a list \<Rightarrow> nat \<Rightarrow> error + 'a" where
  "nth_py xs i = (if i < length xs then Inr (xs ! i) else Inl IndexError)"

text \<open>\<open>xs.index(x)\<close>: the position of the first element equal to \<open>x\<close>.\<close>

fun list_index :: "'a \<Rightarrow> 'a list \<Rightarrow> error + nat" where
  "list_index x [] = Inl ValueError"
| "list_index x (y # ys) =
     (if y = x then Inr 0
      else (case list_index x ys of Inl e \<Rightarrow> Inl e | Inr n \<Rightarrow> Inr (Suc n)))"

subsection \<open>Lines and fields\<close>

definition TAB :: char where "TAB = CHR 0x09"
definition LF :: char where "LF = CHR 0x0A"
definition CR :: char where "CR = CHR 0x0D"

text \<open>\<open>line.rstrip('\r\n')\<close> removes every trailing carriage return and line feed.\<close>

definition rstrip_crlf :: "string \<Rightarrow> string" where
  "rstrip_crlf s = rev (dropWhile (\<lambda>c. c = CR \<or> c = LF) (rev s))"

text \<open>\<open>s.split(sep)\<close> with a one-character separator: always at least one field.\<close>

fun split_on :: "char \<Rightarrow> string \<Rightarrow> string list" where
  "split_on sep [] = [[]]"
| "split_on sep (c # cs) =
     (if c = sep then [] # split_on sep cs
      else (case split_on sep cs of
              [] \<Rightarrow> [[c]]
            | f # fs \<Rightarrow> (c # f) # fs))"

definition fields_of :: "string \<Rightarrow> string list" where
  "fields_of raw = split_on TAB (rstrip_crlf raw)"

subsection \<open>\<open>int(text)\<close>\<close>

text \<open>
  Python's \<open>int\<close> on a text, base ten, for ASCII input: surrounding white space
  (space, tab, line feed, vertical tab, form feed, carriage return) is dropped, one sign
  is allowed, then decimal digits, where a single underscore may stand between two
  digits. Anything else raises \<open>ValueError\<close>, and so does a text of more than 4300
  digits, the default of \<open>sys.get_int_max_str_digits()\<close>; underscores and the sign
  do not count as digits. (In a text that is not ASCII, Python also accepts the decimal
  digits and white space of other scripts; such texts are outside this model, and no
  result below depends on which texts are integers.)
\<close>

definition is_space :: "char \<Rightarrow> bool" where
  "is_space c \<longleftrightarrow>
     c \<in> set [CHR 0x09, CHR 0x0A, CHR 0x0B, CHR 0x0C, CHR 0x0D, CHR 0x20]"

definition max_str_digits :: nat where
  "max_str_digits = 4300"

definition is_digit :: "char \<Rightarrow> bool" where
  "is_digit c \<longleftrightarrow> c \<in> set ''0123456789''"

definition digit_val :: "char \<Rightarrow> int" where
  "digit_val c = int (length (takeWhile (\<lambda>d. d \<noteq> c) ''0123456789''))"

fun py_digits :: "int \<Rightarrow> string \<Rightarrow> error + int" where
  "py_digits acc [] = Inr acc"
| "py_digits acc [c] = (if is_digit c then Inr (10 * acc + digit_val c) else Inl ValueError)"
| "py_digits acc (c # d # cs) =
     (if is_digit c then py_digits (10 * acc + digit_val c) (d # cs)
      else if c = CHR ''_'' \<and> is_digit d then py_digits acc (d # cs)
      else Inl ValueError)"

definition py_unsigned :: "string \<Rightarrow> error + int" where
  "py_unsigned s =
     (case s of
        [] \<Rightarrow> Inl ValueError
      | c # cs \<Rightarrow>
          if is_digit c then
            (case py_digits 0 s of
               Inl e \<Rightarrow> Inl e
             | Inr n \<Rightarrow>
                 if max_str_digits < length (filter is_digit s) then Inl ValueError
                 else Inr n)
          else Inl ValueError)"

definition py_int :: "string \<Rightarrow> error + int" where
  "py_int s =
     (let t = dropWhile is_space (rev (dropWhile is_space (rev s)))
      in case t of
           [] \<Rightarrow> Inl ValueError
         | c # r \<Rightarrow>
             if c = CHR ''-'' then bind_res (py_unsigned r) (\<lambda>n. Inr (- n))
             else if c = CHR ''+'' then py_unsigned r
             else py_unsigned t)"

section \<open>\<open>get_gold_info\<close>\<close>

text \<open>
  The value stored per document: the dictionary
  \<open>{"starts": [], "ends": [], "cats": [], "sents": []}\<close> with four lists that
  grow in parallel.
\<close>

record gold_doc =
  starts :: "int list"
  ends :: "int list"
  cats :: "string list"
  sents :: "string list"

definition empty_doc :: gold_doc where
  "empty_doc = \<lparr>starts = [], ends = [], cats = [], sents = []\<rparr>"

text \<open>
  \<open>gold_aspect_cats\<close> is a dictionary from document id to such a value. Python
  dictionaries keep insertion order, and \<open>gold_size\<close> iterates over the keys, so it is an
  association list: \<open>AList.update\<close> overwrites an existing key in place and appends a
  new one at the end.
\<close>

type_synonym gold_dict = "(string \<times> gold_doc) list"

text \<open>
  The body of the loop over the lines of the gold file. The reads happen in the source's
  order: \<open>line[0]\<close>, \<open>int(line[3])\<close>, \<open>int(line[4])\<close>, \<open>line[1]\<close>,
  \<open>line[5]\<close>. An exception leaves the function, so the dictionary built so far is
  lost with it.
\<close>

definition add_gold_line :: "string \<Rightarrow> gold_dict \<Rightarrow> error + gold_dict" where
  "add_gold_line raw g =
     (let line = fields_of raw in
      bind_res (nth_py line 0) (\<lambda>k.
      let d = (case map_of g k of None \<Rightarrow> empty_doc | Some d \<Rightarrow> d) in
      bind_res (nth_py line 3) (\<lambda>f3.
      bind_res (py_int f3) (\<lambda>s.
      bind_res (nth_py line 4) (\<lambda>f4.
      bind_res (py_int f4) (\<lambda>e.
      bind_res (nth_py line 1) (\<lambda>c.
      bind_res (nth_py line 5) (\<lambda>t.
      Inr (AList.update k
             (d\<lparr>starts := starts d @ [s], ends := ends d @ [e],
                cats := cats d @ [c], sents := sents d @ [t]\<rparr>) g)))))))))"

fun gold_loop :: "string list \<Rightarrow> gold_dict \<Rightarrow> error + gold_dict" where
  "gold_loop [] g = Inr g"
| "gold_loop (raw # rest) g =
     (case add_gold_line raw g of
        Inl e \<Rightarrow> Inl e
      | Inr g' \<Rightarrow> gold_loop rest g')"

definition gold_size_of :: "gold_dict \<Rightarrow> nat" where
  "gold_size_of g = sum_list (map (\<lambda>(k, d). length (cats d)) g)"

text \<open>The argument is the sequence of lines the file iterator yields.\<close>

definition get_gold_info :: "string list \<Rightarrow> error + (gold_dict \<times> nat)" where
  "get_gold_info file_lines =
     bind_res (gold_loop file_lines []) (\<lambda>g. Inr (g, gold_size_of g))"

section \<open>\<open>compute_overall_sentiment_accuracy\<close>\<close>

text \<open>
  Both files become the set of their lines. The quotient is Python's true division of two
  integers; it is kept here as the exact rational (Python returns the float nearest to
  it), and a zero divisor raises.
\<close>

definition compute_overall_sentiment_accuracy :: "string list \<Rightarrow> string list \<Rightarrow> error + rat" where
  "compute_overall_sentiment_accuracy gold_lines pred_lines =
     (let gold_labels = set gold_lines; pred_labels = set pred_lines
      in if card gold_labels = 0 then Inl ZeroDivisionError
         else Inr (of_nat (card (gold_labels \<inter> pred_labels)) / of_nat (card gold_labels)))"

section \<open>\<open>compute_match\<close>\<close>

text \<open>
  A matched pair is the tuple \<open>([start, end, cat, sent], line)\<close>: the four values of the
  gold span at position \<open>i\<close> and the split prediction line.
\<close>

type_synonym gold_entry = "int \<times> int \<times> string \<times> string"
type_synonym pair = "gold_entry \<times> string list"

record counters =
  full_match :: nat
  partial_match :: nat
  full_cat_match :: nat
  partial_cat_match :: nat
  total :: nat
  fully_matched_pairs :: "pair list"
  partially_matched_pairs :: "pair list"

definition init_counters :: counters where
  "init_counters =
     \<lparr>full_match = 0, partial_match = 0, full_cat_match = 0, partial_cat_match = 0,
      total = 0, fully_matched_pairs = [], partially_matched_pairs = []\<rparr>"

definition gold_at :: "gold_doc \<Rightarrow> nat \<Rightarrow> error + gold_entry" where
  "gold_at d i =
     bind_res (nth_py (starts d) i) (\<lambda>s.
     bind_res (nth_py (ends d) i) (\<lambda>e.
     bind_res (nth_py (cats d) i) (\<lambda>c.
     bind_res (nth_py (sents d) i) (\<lambda>t. Inr (s, e, c, t)))))"

text \<open>
  Lines 71 to 86: the counters of a full match. The category of the gold span is compared
  before the pair is built.
\<close>

definition emit_full :: "gold_doc \<Rightarrow> nat \<Rightarrow> string list \<Rightarrow> string \<Rightarrow> counters \<Rightarrow> error + counters" where
  "emit_full d i line category c =
     bind_res (nth_py (cats d) i) (\<lambda>gc.
     bind_res (gold_at d i) (\<lambda>g.
     Inr (c\<lparr>full_match := full_match c + 1,
            full_cat_match := (if gc = category then full_cat_match c + 1 else full_cat_match c),
            partial_cat_match := (if gc = category then partial_cat_match c else partial_cat_match c + 1),
            fully_matched_pairs := fully_matched_pairs c @ [(g, line)]\<rparr>)))"

text \<open>
  Lines 92 to 105, 110 to 123 and 131 to 144, three copies of the same statements: the
  counters of a partial match. Only an equal category moves a category counter.
\<close>

definition emit_partial :: "gold_doc \<Rightarrow> nat \<Rightarrow> string list \<Rightarrow> string \<Rightarrow> counters \<Rightarrow> error + counters" where
  "emit_partial d i line category c =
     bind_res (gold_at d i) (\<lambda>g.
     bind_res (nth_py (cats d) i) (\<lambda>gc.
     Inr (c\<lparr>partial_match := partial_match c + 1,
            partially_matched_pairs := partially_matched_pairs c @ [(g, line)],
            partial_cat_match := (if gc = category then partial_cat_match c + 1 else partial_cat_match c)\<rparr>)))"

text \<open>
  Lines 108 to 125, the loop \<open>for e_pos in ends[i:]\<close>: the first \<open>e_pos\<close> with
  \<open>s_pos <= end <= e_pos\<close> records the gold span at \<open>i\<close> and sets \<open>matched\<close>.
\<close>

fun scan_ends :: "gold_doc \<Rightarrow> nat \<Rightarrow> string list \<Rightarrow> int \<Rightarrow> int \<Rightarrow> string \<Rightarrow> int list \<Rightarrow> counters
    \<Rightarrow> error + (counters \<times> bool)" where
  "scan_ends d i line s_pos endp category [] c = Inr (c, False)"
| "scan_ends d i line s_pos endp category (e_pos # es) c =
     (if s_pos \<le> endp \<and> endp \<le> e_pos
      then (case emit_partial d i line category c of
              Inl e \<Rightarrow> Inl e
            | Inr c' \<Rightarrow> Inr (c', True))
      else scan_ends d i line s_pos endp category es c)"

text \<open>
  Lines 88 to 145, the loop \<open>for s_pos in starts\<close>, over the starts still to visit.
  \<open>continue\<close> goes on with the rest, \<open>break\<close> returns. The second test
  \<open>start > s_pos\<close> is the negation of the first, and no statement between the two
  changes either value, so it is the \<open>else\<close> of the first.
\<close>

fun scan :: "gold_doc \<Rightarrow> string list \<Rightarrow> int \<Rightarrow> int \<Rightarrow> string \<Rightarrow> int list \<Rightarrow> counters
    \<Rightarrow> error + counters" where
  "scan d line start endp category [] c = Inr c"
| "scan d line start endp category (s_pos # rest) c =
     (if start \<le> s_pos then
        (case list_index s_pos (starts d) of
           Inl e \<Rightarrow> Inl e
         | Inr i \<Rightarrow>
            (case nth_py (ends d) i of
               Inl e \<Rightarrow> Inl e
             | Inr e_i \<Rightarrow>
                if e_i = endp then
                  (case emit_partial d i line category c of
                     Inl e \<Rightarrow> Inl e
                   | Inr c' \<Rightarrow> scan d line start endp category rest c')
                else
                  (case scan_ends d i line s_pos endp category (drop i (ends d)) c of
                     Inl e \<Rightarrow> Inl e
                   | Inr (c', matched) \<Rightarrow>
                       if matched then Inr c'
                       else scan d line start endp category rest c')))
      else
        (case list_index s_pos (starts d) of
           Inl e \<Rightarrow> Inl e
         | Inr i \<Rightarrow>
            (case nth_py (ends d) i of
               Inl e \<Rightarrow> Inl e
             | Inr e_i \<Rightarrow>
                if start < e_i \<and> e_i \<le> endp then emit_partial d i line category c
                else scan d line start endp category rest c)))"

text \<open>Lines 68 to 145: what one prediction does to the counters.\<close>

definition match_line :: "gold_doc \<Rightarrow> string list \<Rightarrow> int \<Rightarrow> int \<Rightarrow> string \<Rightarrow> counters
    \<Rightarrow> error + counters" where
  "match_line d line start endp category c =
     (if start \<in> set (starts d) then
        bind_res (list_index start (starts d)) (\<lambda>i.
        bind_res (nth_py (ends d) i) (\<lambda>e_i.
        if e_i = endp then emit_full d i line category c
        else scan d line start endp category (starts d) c))
      else scan d line start endp category (starts d) c)"

text \<open>Lines 63 to 67, then the matching.\<close>

definition process_line :: "gold_dict \<Rightarrow> string \<Rightarrow> counters \<Rightarrow> error + counters" where
  "process_line gold raw c =
     (let c1 = c\<lparr>total := total c + 1\<rparr>; line = fields_of raw in
      bind_res (nth_py line 3) (\<lambda>f3.
      bind_res (py_int f3) (\<lambda>start.
      bind_res (nth_py line 4) (\<lambda>f4.
      bind_res (py_int f4) (\<lambda>endp.
      bind_res (nth_py line 1) (\<lambda>category.
      bind_res (nth_py line 0) (\<lambda>k.
      bind_res (case map_of gold k of None \<Rightarrow> Inl KeyError | Some d \<Rightarrow> Inr d) (\<lambda>d.
      match_line d line start endp category c1))))))))"

fun match_loop :: "gold_dict \<Rightarrow> string list \<Rightarrow> counters \<Rightarrow> error + counters" where
  "match_loop gold [] c = Inr c"
| "match_loop gold (raw # rest) c =
     (case process_line gold raw c of
        Inl e \<Rightarrow> Inl e
      | Inr c' \<Rightarrow> match_loop gold rest c')"

definition compute_match :: "string list \<Rightarrow> gold_dict \<Rightarrow> error + counters" where
  "compute_match pred_lines gold_aspect_cats = match_loop gold_aspect_cats pred_lines init_counters"

section \<open>Notions used in the statements\<close>

text \<open>Each counter of matches agrees with the length of its list of pairs.\<close>

definition counts_agree :: "counters \<Rightarrow> bool" where
  "counts_agree c \<longleftrightarrow>
     full_match c = length (fully_matched_pairs c) \<and>
     partial_match c = length (partially_matched_pairs c)"

text \<open>The four lists of a document have one length.\<close>

definition aligned :: "gold_doc \<Rightarrow> bool" where
  "aligned d \<longleftrightarrow>
     length (ends d) = length (starts d) \<and>
     length (cats d) = length (starts d) \<and>
     length (sents d) = length (starts d)"

definition doc_ok :: "gold_doc \<Rightarrow> bool" where
  "doc_ok d \<longleftrightarrow> aligned d \<and> 1 \<le> length (starts d)"

text \<open>
  A line of the gold file is malformed when it has fewer than six fields between tabs, or
  when its fourth or fifth field is no integer.
\<close>

definition malformed :: "string \<Rightarrow> bool" where
  "malformed raw =
     (let line = fields_of raw
      in length line < 6 \<or> isl (py_int (line ! 3)) \<or> isl (py_int (line ! 4)))"

text \<open>
  Two spans overlap when the ranges \<open>[s1, e1)\<close> and \<open>[s2, e2)\<close> of character
  offsets share a position.
\<close>

definition overlap :: "int \<Rightarrow> int \<Rightarrow> int \<Rightarrow> int \<Rightarrow> bool" where
  "overlap s1 e1 s2 e2 \<longleftrightarrow> max s1 s2 < min e1 e2"

text \<open>
  The second counters only grow a prefix: the pairs of partial matches of \<open>c\<close> are
  still there in \<open>c'\<close>, in front, and \<open>partial_match\<close> has grown by the number of
  pairs added.
\<close>

definition extends :: "counters \<Rightarrow> counters \<Rightarrow> bool" where
  "extends c c' \<longleftrightarrow>
     (\<exists>ps. partially_matched_pairs c' = partially_matched_pairs c @ ps \<and>
           partial_match c' = partial_match c + length ps)"

text \<open>The document id of a line: its first field.\<close>

definition doc_id_of :: "string \<Rightarrow> string" where
  "doc_id_of raw = (case fields_of raw of [] \<Rightarrow> [] | k # fs \<Rightarrow> k)"


subsection \<open>Example inputs\<close>

text \<open>A line of a file: the fields joined by tabs, closed by a line feed.\<close>

definition tsv :: "string list \<Rightarrow> string" where
  "tsv fs = foldr (\<lambda>f r. if r = [LF] then f @ r else f @ TAB # r) fs [LF]"

definition gold_file_ex :: "string list" where
  "gold_file_ex =
     [tsv [''d'', ''food'', ''x'', ''0'', ''5'', ''pos''],
      tsv [''d'', ''service'', ''x'', ''7'', ''9'', ''neg'']]"

definition gold_dict_ex :: gold_dict where
  "gold_dict_ex =
     [(''d'', \<lparr>starts = [0, 7], ends = [5, 9], cats = [''food'', ''service''],
              sents = [''pos'', ''neg'']\<rparr>)]"

text \<open>A gold file about two documents, the second document between two lines of the
  first, and the dictionary it is parsed into.\<close>

definition gold_file_two_docs :: "string list" where
  "gold_file_two_docs =
     [tsv [''d'', ''food'', ''x'', ''0'', ''5'', ''pos''],
      tsv [''e'', ''price'', ''x'', ''2'', ''4'', ''neg''],
      tsv [''d'', ''service'', ''x'', ''7'', ''9'', ''neg'']]"

definition gold_dict_two_docs :: gold_dict where
  "gold_dict_two_docs =
     [(''d'', \<lparr>starts = [0, 7], ends = [5, 9], cats = [''food'', ''service''],
              sents = [''pos'', ''neg'']\<rparr>),
      (''e'', \<lparr>starts = [2], ends = [4], cats = [''price''], sents = [''neg'']\<rparr>)]"

definition gold_file_bad :: "string list" where
  "gold_file_bad =
     [tsv [''d'', ''food'', ''x'', ''0'', ''5'', ''pos''],
      tsv [''d'', ''service'', ''x'', ''seven'', ''9'', ''neg'']]"

text \<open>Gold documents: two spans with one end, two spans with one start, a span whose
  start lies after its end, a span that begins where the prediction \<open>(0, 5)\<close> ends, an
  empty span followed by a later one, and a single span.\<close>

definition doc_two_ends :: gold_doc where
  "doc_two_ends =
     \<lparr>starts = [5, 7], ends = [10, 10], cats = [''food'', ''service''], sents = [''pos'', ''neg'']\<rparr>"

definition doc_shared_start :: gold_doc where
  "doc_shared_start =
     \<lparr>starts = [0, 0], ends = [3, 5], cats = [''food'', ''service''], sents = [''pos'', ''neg'']\<rparr>"

definition doc_inverted :: gold_doc where
  "doc_inverted = \<lparr>starts = [10], ends = [5], cats = [''food''], sents = [''pos'']\<rparr>"

definition doc_adjacent :: gold_doc where
  "doc_adjacent = \<lparr>starts = [5], ends = [10], cats = [''food''], sents = [''pos'']\<rparr>"

definition doc_empty_span :: gold_doc where
  "doc_empty_span =
     \<lparr>starts = [5, 30], ends = [5, 40], cats = [''food'', ''service''], sents = [''pos'', ''neg'']\<rparr>"

definition doc_single :: gold_doc where
  "doc_single = \<lparr>starts = [0], ends = [5], cats = [''food''], sents = [''pos'']\<rparr>"

text \<open>The fields of a prediction line for document \<open>d\<close> with the given offsets.\<close>

definition pred_fields :: "string \<Rightarrow> string \<Rightarrow> string list" where
  "pred_fields s e = [''d'', ''service'', ''x'', s, e, ''pos'']"


section \<open>Basic facts\<close>

lemma bind_res_Inl [simp]: "bind_res (Inl e) f = Inl e"
  by (simp add: bind_res_def)

lemma bind_res_Inr [simp]: "bind_res (Inr x) f = f x"
  by (simp add: bind_res_def)

lemma bind_res_eq_Inr: "bind_res r f = Inr y \<longleftrightarrow> (\<exists>x. r = Inr x \<and> f x = Inr y)"
  by (cases r) simp_all

lemma nth_py_eq_Inr: "nth_py xs i = Inr x \<longleftrightarrow> i < length xs \<and> xs ! i = x"
  by (auto simp: nth_py_def)

lemma nth_py_in_range [simp]: "i < length xs \<Longrightarrow> nth_py xs i = Inr (xs ! i)"
  by (simp add: nth_py_def)

lemma list_index_Inr:
  "list_index x xs = Inr i \<Longrightarrow> i < length xs \<and> xs ! i = x \<and> (\<forall>j<i. xs ! j \<noteq> x)"
proof (induction xs arbitrary: i)
  case Nil
  then show ?case by simp
next
  case (Cons y ys)
  show ?case
  proof (cases "y = x")
    case True
    with Cons.prems show ?thesis by simp
  next
    case False
    with Cons.prems obtain n where n: "list_index x ys = Inr n" "i = Suc n"
      by (auto split: sum.splits)
    from Cons.IH [OF n(1)] have "n < length ys" "ys ! n = x" "\<forall>j<n. ys ! j \<noteq> x"
      by simp_all
    with False n(2) show ?thesis
      by (auto simp: nth_Cons split: nat.splits)
  qed
qed

lemma list_index_first:
  "i < length xs \<Longrightarrow> xs ! i = x \<Longrightarrow> \<forall>j<i. xs ! j \<noteq> x \<Longrightarrow> list_index x xs = Inr i"
proof (induction xs arbitrary: i)
  case Nil
  then show ?case by simp
next
  case (Cons y ys)
  show ?case
  proof (cases i)
    case 0
    with Cons.prems show ?thesis by simp
  next
    case (Suc n)
    with Cons.prems have "y \<noteq> x" by auto
    moreover from Cons.prems Suc have "list_index x ys = Inr n"
      by (intro Cons.IH) auto
    ultimately show ?thesis using Suc by simp
  qed
qed

lemma list_index_mem: "x \<in> set xs \<Longrightarrow> \<exists>i. list_index x xs = Inr i"
  by (induction xs) (auto split: sum.splits)

lemmas eval_defs =
  tsv_def fields_of_def rstrip_crlf_def TAB_def LF_def CR_def py_int_def py_unsigned_def
  is_space_def is_digit_def digit_val_def max_str_digits_def nth_py_def Let_def

lemmas match_defs = match_line_def emit_full_def emit_partial_def gold_at_def init_counters_def
  process_line_def compute_match_def

section \<open>Counters and pair lists\<close>

lemma emit_full_agree: "emit_full d i line category c = Inr c' \<Longrightarrow> counts_agree c \<Longrightarrow> counts_agree c'"
  by (auto simp: emit_full_def counts_agree_def bind_res_eq_Inr)

lemma emit_partial_agree: "emit_partial d i line category c = Inr c' \<Longrightarrow> counts_agree c \<Longrightarrow> counts_agree c'"
  by (auto simp: emit_partial_def counts_agree_def bind_res_eq_Inr)

lemma scan_ends_agree:
  "scan_ends d i line s_pos endp category es c = Inr (c', m) \<Longrightarrow> counts_agree c \<Longrightarrow> counts_agree c'"
  by (induction es) (auto split: if_splits sum.splits dest: emit_partial_agree)

lemma scan_agree:
  "scan d line start endp category ss c = Inr c' \<Longrightarrow> counts_agree c \<Longrightarrow> counts_agree c'"
proof (induction ss arbitrary: c)
  case Nil
  then show ?case by simp
next
  case (Cons s_pos rest)
  from Cons.prems show ?case
    by (auto split: if_splits sum.splits prod.splits
             dest: emit_partial_agree scan_ends_agree Cons.IH)
qed

lemma match_line_agree:
  "match_line d line start endp category c = Inr c' \<Longrightarrow> counts_agree c \<Longrightarrow> counts_agree c'"
  by (auto simp: match_line_def bind_res_eq_Inr split: if_splits
           dest: emit_full_agree scan_agree)

lemma process_line_agree:
  assumes "process_line gold raw c = Inr c'" and "counts_agree c"
  shows "counts_agree c'"
proof -
  from assms(1) obtain d start endp category where
    "match_line d (fields_of raw) start endp category (c\<lparr>total := total c + 1\<rparr>) = Inr c'"
    by (auto simp: process_line_def Let_def bind_res_eq_Inr)
  moreover from assms(2) have "counts_agree (c\<lparr>total := total c + 1\<rparr>)"
    by (simp add: counts_agree_def)
  ultimately show ?thesis by (rule match_line_agree)
qed

lemma match_loop_agree:
  "match_loop gold ls c = Inr c' \<Longrightarrow> counts_agree c \<Longrightarrow> counts_agree c'"
  by (induction ls arbitrary: c) (auto split: sum.splits dest: process_line_agree)

text \<open>
  C9. After a run of \<open>compute_match\<close> that returns, \<open>full_match\<close> is the length of
  \<open>fully_matched_pairs\<close> and \<open>partial_match\<close> is the length of
  \<open>partially_matched_pairs\<close>.
\<close>

theorem counters_equal_list_lengths:
  "compute_match pred_lines gold = Inr c \<Longrightarrow>
     full_match c = length (fully_matched_pairs c) \<and>
     partial_match c = length (partially_matched_pairs c)"
proof -
  assume run: "compute_match pred_lines gold = Inr c"
  have "counts_agree init_counters"
    by (simp add: counts_agree_def init_counters_def)
  with run have "counts_agree c"
    unfolding compute_match_def by (rule match_loop_agree)
  then show ?thesis by (simp add: counts_agree_def)
qed

lemma compute_match_ex:
  "compute_match [tsv (pred_fields ''0'' ''5''), tsv (pred_fields ''6'' ''9'')] gold_dict_ex =
     Inr \<lparr>full_match = 1, partial_match = 1, full_cat_match = 0, partial_cat_match = 2,
          total = 2,
          fully_matched_pairs = [((0, 5, ''food'', ''pos''), pred_fields ''0'' ''5'')],
          partially_matched_pairs = [((7, 9, ''service'', ''neg''), pred_fields ''6'' ''9'')]\<rparr>"
  by (simp add: gold_dict_ex_def pred_fields_def match_defs eval_defs)

theorem counters_equal_list_lengths_witness:
  "compute_match [tsv (pred_fields ''0'' ''5''), tsv (pred_fields ''6'' ''9'')] gold_dict_ex =
     Inr \<lparr>full_match = 1, partial_match = 1, full_cat_match = 0, partial_cat_match = 2,
          total = 2,
          fully_matched_pairs = [((0, 5, ''food'', ''pos''), pred_fields ''0'' ''5'')],
          partially_matched_pairs = [((7, 9, ''service'', ''neg''), pred_fields ''6'' ''9'')]\<rparr> \<and>
   (1::nat) = length [((0::int, 5::int, ''food'', ''pos''), pred_fields ''0'' ''5'')] \<and>
   (1::nat) = length [((7::int, 9::int, ''service'', ''neg''), pred_fields ''6'' ''9'')]"
  using counters_equal_list_lengths [OF compute_match_ex] compute_match_ex by simp

section \<open>Overall sentiment accuracy\<close>

text \<open>
  C5. With a gold side that is not empty, the overall sentiment accuracy is the number of
  distinct gold lines that also occur among the predicted lines, divided by the number of
  distinct gold lines.
\<close>

theorem overall_accuracy_distinct_lines:
  "gold_lines \<noteq> [] \<Longrightarrow>
   compute_overall_sentiment_accuracy gold_lines pred_lines =
     Inr (of_nat (length (filter (\<lambda>l. l \<in> set pred_lines) (remdups gold_lines)))
          / of_nat (length (remdups gold_lines)))"
proof -
  assume ne: "gold_lines \<noteq> []"
  have "set gold_lines \<inter> set pred_lines = set (filter (\<lambda>l. l \<in> set pred_lines) (remdups gold_lines))"
    by auto
  then have common: "card (set gold_lines \<inter> set pred_lines)
      = length (filter (\<lambda>l. l \<in> set pred_lines) (remdups gold_lines))"
    by (simp only: distinct_card [OF distinct_filter [OF distinct_remdups]])
  have all: "card (set gold_lines) = length (remdups gold_lines)"
    by (simp add: length_remdups_card_conv)
  from ne have "card (set gold_lines) \<noteq> 0" by simp
  then show ?thesis
    unfolding compute_overall_sentiment_accuracy_def Let_def common all by simp
qed

theorem overall_accuracy_distinct_lines_witness:
  "[''a'' @ [LF], ''a'' @ [LF], ''b'' @ [LF]] \<noteq> [] \<and>
   compute_overall_sentiment_accuracy [''a'' @ [LF], ''a'' @ [LF], ''b'' @ [LF]] [''a'' @ [LF]]
     = Inr (1 / 2)"
  using overall_accuracy_distinct_lines [of "[''a'' @ [LF], ''a'' @ [LF], ''b'' @ [LF]]" "[''a'' @ [LF]]"]
  by simp

text \<open>
  C6. \<open>compute_overall_sentiment_accuracy\<close> raises \<open>ZeroDivisionError\<close> exactly when
  there is no gold line, and it raises at all exactly when the set of gold lines is empty.
\<close>

theorem overall_accuracy_zero_division:
  "(compute_overall_sentiment_accuracy gold_lines pred_lines = Inl ZeroDivisionError)
     = (gold_lines = []) \<and>
   isl (compute_overall_sentiment_accuracy gold_lines pred_lines) = (set gold_lines = {})"
  by (simp add: compute_overall_sentiment_accuracy_def Let_def)



section \<open>Parsing the gold file\<close>

lemma add_gold_line_isl: "isl (add_gold_line raw g) = malformed raw"
proof -
  let ?line = "fields_of raw"
  show ?thesis
  proof (cases "length ?line < 6")
    case True
    then show ?thesis
      by (cases "py_int (?line ! 3)"; cases "py_int (?line ! 4)")
         (auto simp: add_gold_line_def malformed_def Let_def nth_py_def)
  next
    case False
    then show ?thesis
      by (cases "py_int (?line ! 3)"; cases "py_int (?line ! 4)")
         (auto simp: add_gold_line_def malformed_def Let_def nth_py_def)
  qed
qed

lemma gold_size_update:
  "length (cats v) = Suc (length (cats (case map_of g k of None \<Rightarrow> empty_doc | Some d \<Rightarrow> d)))
   \<Longrightarrow> gold_size_of (AList.update k v g) = Suc (gold_size_of g)"
  by (induction g) (auto simp: gold_size_of_def empty_doc_def)

lemma add_gold_line_size:
  "add_gold_line raw g = Inr g' \<Longrightarrow> gold_size_of g' = Suc (gold_size_of g)"
  by (auto simp: add_gold_line_def Let_def bind_res_eq_Inr intro!: gold_size_update)

lemma gold_loop_isl: "isl (gold_loop ls g) = list_ex malformed ls"
proof (induction ls arbitrary: g)
  case Nil
  then show ?case by simp
next
  case (Cons raw rest)
  show ?case
  proof (cases "add_gold_line raw g")
    case (Inl e)
    with add_gold_line_isl [of raw g] show ?thesis by simp
  next
    case (Inr g')
    with add_gold_line_isl [of raw g] Cons.IH [of g'] show ?thesis by simp
  qed
qed

lemma gold_loop_size:
  "gold_loop ls g = Inr g' \<Longrightarrow> gold_size_of g' = gold_size_of g + length ls"
proof (induction ls arbitrary: g)
  case Nil
  then show ?case by simp
next
  case (Cons raw rest)
  then show ?case
    by (auto split: sum.splits dest!: add_gold_line_size)
qed

lemma get_gold_info_ex: "get_gold_info gold_file_ex = Inr (gold_dict_ex, 2)"
  by (simp add: get_gold_info_def gold_file_ex_def gold_dict_ex_def add_gold_line_def
        gold_size_of_def empty_doc_def eval_defs)

lemma set_alist_update: "set (AList.update k v al) \<subseteq> insert (k, v) (set al)"
  by (induction al) auto

lemma add_gold_line_docs:
  assumes "add_gold_line raw g = Inr g'" and "list_all (\<lambda>(k, d). doc_ok d) g"
  shows "list_all (\<lambda>(k, d). doc_ok d) g'"
proof -
  from assms(1) obtain k s e c t where
    g': "g' = AList.update k
           ((case map_of g k of None \<Rightarrow> empty_doc | Some d \<Rightarrow> d)
              \<lparr>starts := starts (case map_of g k of None \<Rightarrow> empty_doc | Some d \<Rightarrow> d) @ [s],
               ends := ends (case map_of g k of None \<Rightarrow> empty_doc | Some d \<Rightarrow> d) @ [e],
               cats := cats (case map_of g k of None \<Rightarrow> empty_doc | Some d \<Rightarrow> d) @ [c],
               sents := sents (case map_of g k of None \<Rightarrow> empty_doc | Some d \<Rightarrow> d) @ [t]\<rparr>) g"
    by (auto simp: add_gold_line_def Let_def bind_res_eq_Inr)
  define d0 where "d0 = (case map_of g k of None \<Rightarrow> empty_doc | Some d \<Rightarrow> d)"
  have "aligned d0"
  proof (cases "map_of g k")
    case None
    then show ?thesis by (simp add: d0_def empty_doc_def aligned_def)
  next
    case (Some d)
    then have "(k, d) \<in> set g" by (rule map_of_SomeD)
    with assms(2) have "doc_ok d" by (auto simp: list_all_iff)
    with Some show ?thesis by (simp add: d0_def doc_ok_def)
  qed
  then have new: "doc_ok (d0\<lparr>starts := starts d0 @ [s], ends := ends d0 @ [e],
                            cats := cats d0 @ [c], sents := sents d0 @ [t]\<rparr>)"
    by (simp add: doc_ok_def aligned_def)
  have "set g' \<subseteq> insert (k, d0\<lparr>starts := starts d0 @ [s], ends := ends d0 @ [e],
                            cats := cats d0 @ [c], sents := sents d0 @ [t]\<rparr>) (set g)"
    unfolding g' d0_def by (rule set_alist_update)
  with new assms(2) show ?thesis
    by (auto simp: list_all_iff)
qed

lemma gold_loop_docs:
  "gold_loop ls g = Inr g' \<Longrightarrow> list_all (\<lambda>(k, d). doc_ok d) g \<Longrightarrow> list_all (\<lambda>(k, d). doc_ok d) g'"
proof (induction ls arbitrary: g)
  case Nil
  then show ?case by simp
next
  case (Cons raw rest)
  then show ?case
    by (auto split: sum.splits dest: add_gold_line_docs)
qed

lemma span_count_eq_gold_size:
  "list_all (\<lambda>(k, d). doc_ok d) g \<Longrightarrow>
   sum_list (map (\<lambda>(k, d). length (starts d)) g) = gold_size_of g"
  by (induction g) (auto simp: gold_size_of_def doc_ok_def aligned_def)

lemma get_gold_info_two_docs:
  "get_gold_info gold_file_two_docs = Inr (gold_dict_two_docs, 3)"
  by (simp add: get_gold_info_def gold_file_two_docs_def gold_dict_two_docs_def add_gold_line_def
        gold_size_of_def empty_doc_def eval_defs)

text \<open>
  C8. \<open>get_gold_info\<close> raises exactly when some line is malformed. When it returns, the
  \<open>gold_size\<close> it returns is the number of lines, and it is the size of the mapping it
  returns with it: the number of gold spans, summed over the documents of the mapping, is
  the number of lines.
\<close>

theorem gold_parsing_fails_iff_malformed:
  "isl (get_gold_info file_lines) = list_ex malformed file_lines \<and>
   (\<forall>g n. get_gold_info file_lines = Inr (g, n) \<longrightarrow>
      n = length file_lines \<and> gold_size_of g = length file_lines \<and>
      sum_list (map (\<lambda>(k, d). length (starts d)) g) = length file_lines)"
proof -
  have "isl (get_gold_info file_lines) = isl (gold_loop file_lines [])"
    by (cases "gold_loop file_lines []") (simp_all add: get_gold_info_def)
  moreover have "n = length file_lines \<and> gold_size_of g = length file_lines \<and>
      sum_list (map (\<lambda>(k, d). length (starts d)) g) = length file_lines"
    if "get_gold_info file_lines = Inr (g, n)" for g n
  proof -
    from that have loop: "gold_loop file_lines [] = Inr g" and n: "n = gold_size_of g"
      by (auto simp: get_gold_info_def bind_res_eq_Inr)
    from gold_loop_size [OF loop] have size: "gold_size_of g = length file_lines"
      by (simp add: gold_size_of_def)
    from loop have "list_all (\<lambda>(k, d). doc_ok d) g"
      by (rule gold_loop_docs) simp
    from span_count_eq_gold_size [OF this] size n show ?thesis by simp
  qed
  ultimately show ?thesis by (simp add: gold_loop_isl)
qed

theorem gold_parsing_fails_iff_malformed_witness:
  "list_ex malformed gold_file_bad \<and> isl (get_gold_info gold_file_bad) \<and>
   \<not> list_ex malformed gold_file_two_docs \<and>
   get_gold_info gold_file_two_docs = Inr (gold_dict_two_docs, 3) \<and>
   (3::nat) = length gold_file_two_docs \<and>
   gold_size_of gold_dict_two_docs = length gold_file_two_docs \<and>
   sum_list (map (\<lambda>(k, d). length (starts d)) gold_dict_two_docs) = length gold_file_two_docs"
proof -
  have bad: "list_ex malformed gold_file_bad"
    by (simp add: gold_file_bad_def malformed_def eval_defs)
  with gold_parsing_fails_iff_malformed [of gold_file_bad]
  have "isl (get_gold_info gold_file_bad)" by simp
  moreover from gold_parsing_fails_iff_malformed [of gold_file_two_docs] get_gold_info_two_docs
  have "\<not> list_ex malformed gold_file_two_docs" "(3::nat) = length gold_file_two_docs"
    "gold_size_of gold_dict_two_docs = length gold_file_two_docs"
    "sum_list (map (\<lambda>(k, d). length (starts d)) gold_dict_two_docs) = length gold_file_two_docs"
    by auto
  ultimately show ?thesis using bad get_gold_info_two_docs by simp
qed

text \<open>
  C10. In the dictionary that \<open>get_gold_info\<close> returns, the four lists of every
  document have the same length, and that length is at least one.
\<close>

theorem gold_lists_parallel_nonempty:
  assumes "get_gold_info file_lines = Inr (g, n)" and "(k, d) \<in> set g"
  shows "length (ends d) = length (starts d) \<and> length (cats d) = length (starts d) \<and>
         length (sents d) = length (starts d) \<and> 1 \<le> length (starts d)"
proof -
  from assms(1) have "gold_loop file_lines [] = Inr g"
    by (auto simp: get_gold_info_def bind_res_eq_Inr)
  then have "list_all (\<lambda>(k, d). doc_ok d) g"
    by (rule gold_loop_docs) simp
  with assms(2) have "doc_ok d" by (auto simp: list_all_iff)
  then show ?thesis by (simp add: doc_ok_def aligned_def)
qed

theorem gold_lists_parallel_nonempty_witness:
  "get_gold_info gold_file_ex = Inr (gold_dict_ex, 2) \<and>
   (''d'', \<lparr>starts = [0, 7], ends = [5, 9], cats = [''food'', ''service''],
            sents = [''pos'', ''neg'']\<rparr>) \<in> set gold_dict_ex \<and>
   length [5, 9 :: int] = length [0, 7 :: int] \<and>
   length [''food'', ''service''] = length [0, 7 :: int] \<and>
   length [''pos'', ''neg''] = length [0, 7 :: int] \<and> 1 \<le> length [0, 7 :: int]"
proof -
  have mem: "(''d'', \<lparr>starts = [0, 7], ends = [5, 9], cats = [''food'', ''service''],
            sents = [''pos'', ''neg'']\<rparr>) \<in> set gold_dict_ex"
    by (simp add: gold_dict_ex_def)
  from gold_lists_parallel_nonempty [OF get_gold_info_ex mem] get_gold_info_ex mem
  show ?thesis by simp
qed

section \<open>One prediction against one document\<close>

lemma gold_at_aligned:
  "aligned d \<Longrightarrow> i < length (starts d) \<Longrightarrow>
   gold_at d i = Inr (starts d ! i, ends d ! i, cats d ! i, sents d ! i)"
  by (simp add: gold_at_def aligned_def)

lemma emit_partial_aligned:
  "aligned d \<Longrightarrow> i < length (starts d) \<Longrightarrow>
   emit_partial d i line category c =
     Inr (c\<lparr>partial_match := partial_match c + 1,
            partially_matched_pairs := partially_matched_pairs c
               @ [((starts d ! i, ends d ! i, cats d ! i, sents d ! i), line)],
            partial_cat_match := (if cats d ! i = category then partial_cat_match c + 1
                                  else partial_cat_match c)\<rparr>)"
  by (simp add: emit_partial_def gold_at_aligned) (simp add: aligned_def)

lemma emit_full_aligned:
  "aligned d \<Longrightarrow> i < length (starts d) \<Longrightarrow>
   emit_full d i line category c =
     Inr (c\<lparr>full_match := full_match c + 1,
            full_cat_match := (if cats d ! i = category then full_cat_match c + 1
                               else full_cat_match c),
            partial_cat_match := (if cats d ! i = category then partial_cat_match c
                                  else partial_cat_match c + 1),
            fully_matched_pairs := fully_matched_pairs c
               @ [((starts d ! i, ends d ! i, cats d ! i, sents d ! i), line)]\<rparr>)"
  by (simp add: emit_full_def gold_at_aligned) (simp add: aligned_def)

subsection \<open>Full matches\<close>

text \<open>
  C1, as the code has it. In a document from the gold file, a prediction whose start and
  end are those of the first gold span, in file order, that has this start is a full
  match: \<open>full_match\<close> grows by one and the pair of that span and the line is appended to
  \<open>fully_matched_pairs\<close>, whatever the categories and sentiments are.
\<close>

theorem first_span_with_start_is_full:
  assumes "aligned d" and "i < length (starts d)"
      and "starts d ! i = start" and "ends d ! i = endp"
      and "\<forall>j<i. starts d ! j \<noteq> start"
  shows "match_line d line start endp category c =
     Inr (c\<lparr>full_match := full_match c + 1,
            full_cat_match := (if cats d ! i = category then full_cat_match c + 1
                               else full_cat_match c),
            partial_cat_match := (if cats d ! i = category then partial_cat_match c
                                  else partial_cat_match c + 1),
            fully_matched_pairs := fully_matched_pairs c
               @ [((start, endp, cats d ! i, sents d ! i), line)]\<rparr>)"
proof -
  from assms(2,3) have mem: "start \<in> set (starts d)" by auto
  from assms(2,3,5) have idx: "list_index start (starts d) = Inr i"
    by (intro list_index_first) auto
  from assms(1,2,4) have e: "nth_py (ends d) i = Inr endp"
    by (simp add: aligned_def)
  from mem idx e have "match_line d line start endp category c = emit_full d i line category c"
    by (simp add: match_line_def)
  with emit_full_aligned [OF assms(1,2)] assms(3,4) show ?thesis by simp
qed

theorem first_span_with_start_is_full_witness:
  "aligned doc_two_ends \<and> (1::nat) < length (starts doc_two_ends) \<and>
   starts doc_two_ends ! 1 = 7 \<and> ends doc_two_ends ! 1 = 10 \<and>
   starts doc_two_ends ! 0 \<noteq> 7 \<and>
   match_line doc_two_ends (pred_fields ''7'' ''10'') 7 10 ''service'' init_counters =
     Inr \<lparr>full_match = 1, partial_match = 0, full_cat_match = 1, partial_cat_match = 0,
          total = 0,
          fully_matched_pairs = [((7, 10, ''service'', ''neg''), pred_fields ''7'' ''10'')],
          partially_matched_pairs = []\<rparr>"
proof -
  have a: "aligned doc_two_ends" by (simp add: aligned_def doc_two_ends_def)
  have b: "(1::nat) < length (starts doc_two_ends)" by (simp add: doc_two_ends_def)
  have c: "starts doc_two_ends ! 1 = 7" by (simp add: doc_two_ends_def)
  have d: "ends doc_two_ends ! 1 = 10" by (simp add: doc_two_ends_def)
  have e0: "starts doc_two_ends ! 0 \<noteq> 7" by (simp add: doc_two_ends_def)
  then have e: "\<forall>j<1::nat. starts doc_two_ends ! j \<noteq> 7" by simp
  from first_span_with_start_is_full
    [OF a b c d e, of "pred_fields ''7'' ''10''" "''service''" init_counters]
  show ?thesis using a b c d e0 by (simp add: doc_two_ends_def init_counters_def)
qed

text \<open>
  C1, as stated, fails when an earlier gold span shares the start: the gold spans
  \<open>(0, 3)\<close> and \<open>(0, 5)\<close> and the prediction \<open>(0, 5)\<close> give no full match, and one
  partial match with the span \<open>(0, 3)\<close>.
\<close>

theorem shared_start_counterexample:
  "(0, 5) \<in> set (zip (starts doc_shared_start) (ends doc_shared_start)) \<and>
   match_line doc_shared_start (pred_fields ''0'' ''5'') 0 5 ''service'' init_counters =
     Inr \<lparr>full_match = 0, partial_match = 1, full_cat_match = 0, partial_cat_match = 0,
          total = 0, fully_matched_pairs = [],
          partially_matched_pairs = [((0, 3, ''food'', ''pos''), pred_fields ''0'' ''5'')]\<rparr>"
  by (simp add: doc_shared_start_def match_defs nth_py_def)

subsection \<open>The scan over the starts\<close>

lemma extends_refl: "extends c c"
  by (simp add: extends_def)

lemma extends_trans: "extends c c1 \<Longrightarrow> extends c1 c2 \<Longrightarrow> extends c c2"
  by (auto simp: extends_def)

lemma emit_partial_extends: "emit_partial d i line category c = Inr c' \<Longrightarrow> extends c c'"
  by (auto simp: emit_partial_def bind_res_eq_Inr extends_def)

lemma scan_ends_extends:
  "scan_ends d i line s_pos endp category es c = Inr (c', m) \<Longrightarrow> extends c c'"
  by (induction es)
     (auto split: if_splits sum.splits dest: emit_partial_extends intro: extends_refl)

lemma scan_extends:
  "scan d line start endp category ss c = Inr c' \<Longrightarrow> extends c c'"
proof (induction ss arbitrary: c)
  case Nil
  then show ?case by (simp add: extends_refl)
next
  case (Cons s_pos rest)
  have step: "extends c c'"
    if "extends c c1" and "scan d line start endp category rest c1 = Inr c'" for c1
    using that(1) Cons.IH [OF that(2)] by (rule extends_trans)
  from Cons.prems show ?case
    by (auto split: if_splits sum.splits prod.splits
             dest!: emit_partial_extends scan_ends_extends intro: step extends_refl)
qed

lemma scan_ends_returns:
  "aligned d \<Longrightarrow> i < length (starts d) \<Longrightarrow>
   \<exists>r. scan_ends d i line s_pos endp category es c = Inr r"
  by (induction es) (auto simp: emit_partial_aligned)

lemma scan_returns:
  assumes "aligned d"
  shows "set ss \<subseteq> set (starts d) \<Longrightarrow> \<exists>r. scan d line start endp category ss c = Inr r"
proof (induction ss arbitrary: c)
  case Nil
  show ?case by simp
next
  case (Cons s_pos rest)
  then have "s_pos \<in> set (starts d)" and sub: "set rest \<subseteq> set (starts d)"
    by simp_all
  then obtain i where idx: "list_index s_pos (starts d) = Inr i"
    using list_index_mem by fastforce
  from list_index_Inr [OF idx] have i: "i < length (starts d)"
    by simp
  with assms have e: "nth_py (ends d) i = Inr (ends d ! i)"
    by (simp add: aligned_def)
  obtain c1 m where se: "scan_ends d i line s_pos endp category (drop i (ends d)) c = Inr (c1, m)"
    using scan_ends_returns [OF assms i] by fastforce
  from Cons.IH [OF sub] have rest: "\<exists>r. scan d line start endp category rest c0 = Inr r" for c0
    by simp
  show ?case
    using idx e se rest emit_partial_aligned [OF assms i, of line category c]
    by (auto split: if_splits)
qed

text \<open>
  C2. When the prediction starts at or before the current gold start and the first gold
  span with that start ends where the prediction ends, the scan returns the result of
  scanning the remaining starts from counters in which that partial match is recorded;
  so the pair is in the list the scan returns, followed by whatever the rest of the scan
  adds, and \<open>partial_match\<close> has grown by one more than the rest adds. So one prediction
  can leave more than one partial match: the prediction \<open>(3, 10)\<close> against the gold
  spans \<open>(5, 10)\<close> and \<open>(7, 10)\<close> leaves two.
\<close>

theorem branch_a_exact_end_continues:
  "(aligned d \<and> set rest \<subseteq> set (starts d) \<and> start \<le> s_pos \<and>
    list_index s_pos (starts d) = Inr i \<and> ends d ! i = endp \<longrightarrow>
      (\<exists>r ps. scan d line start endp category (s_pos # rest) c = Inr r \<and>
           scan d line start endp category rest
             (c\<lparr>partial_match := partial_match c + 1,
                partially_matched_pairs := partially_matched_pairs c
                   @ [((s_pos, endp, cats d ! i, sents d ! i), line)],
                partial_cat_match := (if cats d ! i = category then partial_cat_match c + 1
                                      else partial_cat_match c)\<rparr>) = Inr r \<and>
           partially_matched_pairs r = partially_matched_pairs c
              @ ((s_pos, endp, cats d ! i, sents d ! i), line) # ps \<and>
           partial_match r = partial_match c + 1 + length ps)) \<and>
   match_line doc_two_ends (pred_fields ''3'' ''10'') 3 10 ''service'' init_counters =
     Inr \<lparr>full_match = 0, partial_match = 2, full_cat_match = 0, partial_cat_match = 1,
          total = 0, fully_matched_pairs = [],
          partially_matched_pairs =
            [((5, 10, ''food'', ''pos''), pred_fields ''3'' ''10''),
             ((7, 10, ''service'', ''neg''), pred_fields ''3'' ''10'')]\<rparr>"
proof (intro conjI impI)
  let ?c1 = "c\<lparr>partial_match := partial_match c + 1,
                partially_matched_pairs := partially_matched_pairs c
                   @ [((s_pos, endp, cats d ! i, sents d ! i), line)],
                partial_cat_match := (if cats d ! i = category then partial_cat_match c + 1
                                      else partial_cat_match c)\<rparr>"
  assume h: "aligned d \<and> set rest \<subseteq> set (starts d) \<and> start \<le> s_pos \<and>
    list_index s_pos (starts d) = Inr i \<and> ends d ! i = endp"
  then have al: "aligned d" and sub: "set rest \<subseteq> set (starts d)" and le: "start \<le> s_pos"
    and idx: "list_index s_pos (starts d) = Inr i" and en: "ends d ! i = endp"
    by simp_all
  from list_index_Inr [OF idx] have i: "i < length (starts d)" "starts d ! i = s_pos"
    by simp_all
  from al en i have e: "nth_py (ends d) i = Inr endp"
    by (simp add: aligned_def)
  from emit_partial_aligned [OF al i(1), of line category c] i(2) en
  have emit: "emit_partial d i line category c = Inr ?c1"
    by simp
  with le idx e have step: "scan d line start endp category (s_pos # rest) c
      = scan d line start endp category rest ?c1"
    by simp
  from scan_returns [OF al sub] obtain r where r: "scan d line start endp category rest ?c1 = Inr r"
    by blast
  from scan_extends [OF r] obtain ps where
    ps: "partially_matched_pairs r = partially_matched_pairs ?c1 @ ps"
        "partial_match r = partial_match ?c1 + length ps"
    by (auto simp: extends_def)
  from ps have "partially_matched_pairs r = partially_matched_pairs c
              @ ((s_pos, endp, cats d ! i, sents d ! i), line) # ps"
    and "partial_match r = partial_match c + 1 + length ps"
    by simp_all
  with step r show "\<exists>r ps. scan d line start endp category (s_pos # rest) c = Inr r \<and>
           scan d line start endp category rest ?c1 = Inr r \<and>
           partially_matched_pairs r = partially_matched_pairs c
              @ ((s_pos, endp, cats d ! i, sents d ! i), line) # ps \<and>
           partial_match r = partial_match c + 1 + length ps"
    by (intro exI [of _ r] exI [of _ ps]) simp
next
  show "match_line doc_two_ends (pred_fields ''3'' ''10'') 3 10 ''service'' init_counters =
     Inr \<lparr>full_match = 0, partial_match = 2, full_cat_match = 0, partial_cat_match = 1,
          total = 0, fully_matched_pairs = [],
          partially_matched_pairs =
            [((5, 10, ''food'', ''pos''), pred_fields ''3'' ''10''),
             ((7, 10, ''service'', ''neg''), pred_fields ''3'' ''10'')]\<rparr>"
    by (simp add: doc_two_ends_def match_defs nth_py_def)
qed

theorem branch_a_exact_end_continues_witness:
  "aligned doc_two_ends \<and> set [7] \<subseteq> set (starts doc_two_ends) \<and> (3::int) \<le> 5 \<and>
   list_index 5 (starts doc_two_ends) = Inr 0 \<and> ends doc_two_ends ! 0 = 10 \<and>
   scan doc_two_ends (pred_fields ''3'' ''10'') 3 10 ''service'' [5, 7] init_counters =
     Inr \<lparr>full_match = 0, partial_match = 2, full_cat_match = 0, partial_cat_match = 1,
          total = 0, fully_matched_pairs = [],
          partially_matched_pairs =
            [((5, 10, ''food'', ''pos''), pred_fields ''3'' ''10''),
             ((7, 10, ''service'', ''neg''), pred_fields ''3'' ''10'')]\<rparr>"
proof -
  have h: "aligned doc_two_ends \<and> set [7] \<subseteq> set (starts doc_two_ends) \<and> (3::int) \<le> 5 \<and>
      list_index 5 (starts doc_two_ends) = Inr 0 \<and> ends doc_two_ends ! 0 = 10"
    by (simp add: aligned_def doc_two_ends_def)
  from branch_a_exact_end_continues
    [of doc_two_ends "[7]" 3 5 0 10 "pred_fields ''3'' ''10''" "''service''" init_counters] h
  obtain r ps where
    r: "scan doc_two_ends (pred_fields ''3'' ''10'') 3 10 ''service'' [5, 7] init_counters = Inr r"
    and rest: "scan doc_two_ends (pred_fields ''3'' ''10'') 3 10 ''service'' [7]
       (init_counters\<lparr>partial_match := partial_match init_counters + 1,
          partially_matched_pairs := partially_matched_pairs init_counters
             @ [((5, 10, cats doc_two_ends ! 0, sents doc_two_ends ! 0), pred_fields ''3'' ''10'')],
          partial_cat_match :=
            (if cats doc_two_ends ! 0 = ''service'' then partial_cat_match init_counters + 1
             else partial_cat_match init_counters)\<rparr>) = Inr r"
    by blast
  from rest have "r = \<lparr>full_match = 0, partial_match = 2, full_cat_match = 0, partial_cat_match = 1,
          total = 0, fully_matched_pairs = [],
          partially_matched_pairs =
            [((5, 10, ''food'', ''pos''), pred_fields ''3'' ''10''),
             ((7, 10, ''service'', ''neg''), pred_fields ''3'' ''10'')]\<rparr>"
    by (auto simp: doc_two_ends_def match_defs nth_py_def)
  with r h show ?thesis by simp
qed

subsection \<open>No overlap, no match\<close>

lemma scan_ends_no_hit:
  "\<not> s_pos \<le> endp \<Longrightarrow> scan_ends d i line s_pos endp category es c = Inr (c, False)"
  by (induction es) simp_all

lemma scan_no_overlap:
  assumes al: "aligned d"
      and ord: "list_all (\<lambda>(s, e). s < e) (zip (starts d) (ends d))"
      and no: "list_all (\<lambda>(s, e). \<not> overlap start endp s e) (zip (starts d) (ends d))"
      and ne: "endp \<notin> set (starts d)"
  shows "set ss \<subseteq> set (starts d) \<Longrightarrow> scan d line start endp category ss c = Inr c"
proof (induction ss)
  case Nil
  show ?case by simp
next
  case (Cons s_pos rest)
  then have mem: "s_pos \<in> set (starts d)"
    and rest: "scan d line start endp category rest c = Inr c"
    by simp_all
  then obtain i where idx: "list_index s_pos (starts d) = Inr i"
    using list_index_mem by fastforce
  from list_index_Inr [OF idx] have i: "i < length (starts d)" "starts d ! i = s_pos"
    by simp_all
  with al have e: "nth_py (ends d) i = Inr (ends d ! i)" and len: "i < length (ends d)"
    by (simp_all add: aligned_def)
  from i len have "(s_pos, ends d ! i) \<in> set (zip (starts d) (ends d))"
    by (auto simp: in_set_zip)
  with ord no have lt: "s_pos < ends d ! i" and dis: "\<not> overlap start endp s_pos (ends d ! i)"
    by (auto simp: list_all_iff)
  from mem ne have neq: "s_pos \<noteq> endp" by auto
  show ?case
  proof (cases "start \<le> s_pos")
    case True
    with lt dis neq have "ends d ! i \<noteq> endp" and "\<not> s_pos \<le> endp"
      by (auto simp: overlap_def)
    with True idx e rest show ?thesis
      by (simp add: scan_ends_no_hit)
  next
    case False
    with lt dis have "\<not> (start < ends d ! i \<and> ends d ! i \<le> endp)"
      by (auto simp: overlap_def)
    with False idx e rest show ?thesis by auto
  qed
qed

text \<open>
  C3, as the code has it. In a document from the gold file whose spans all have their
  start before their end, a prediction that overlaps no gold span, and whose end is the
  start of no gold span, changes no counter and appends no pair.
\<close>

theorem no_overlap_no_match:
  assumes al: "aligned d"
      and ord: "list_all (\<lambda>(s, e). s < e) (zip (starts d) (ends d))"
      and no: "list_all (\<lambda>(s, e). \<not> overlap start endp s e) (zip (starts d) (ends d))"
      and ne: "endp \<notin> set (starts d)"
  shows "match_line d line start endp category c = Inr c"
proof -
  have sc: "scan d line start endp category (starts d) c = Inr c"
    using al ord no ne by (rule scan_no_overlap) simp
  show ?thesis
  proof (cases "start \<in> set (starts d)")
    case False
    with sc show ?thesis by (simp add: match_line_def)
  next
    case True
    then obtain i where idx: "list_index start (starts d) = Inr i"
      using list_index_mem by fastforce
    from list_index_Inr [OF idx] have i: "i < length (starts d)" "starts d ! i = start"
      by simp_all
    with al have e: "nth_py (ends d) i = Inr (ends d ! i)" and len: "i < length (ends d)"
      by (simp_all add: aligned_def)
    from i len have "(start, ends d ! i) \<in> set (zip (starts d) (ends d))"
      by (auto simp: in_set_zip)
    with ord no have "start < ends d ! i" "\<not> overlap start endp start (ends d ! i)"
      by (auto simp: list_all_iff)
    then have "ends d ! i \<noteq> endp" by (auto simp: overlap_def)
    with True idx e sc show ?thesis by (simp add: match_line_def)
  qed
qed

theorem no_overlap_no_match_witness:
  "aligned doc_single \<and>
   list_all (\<lambda>(s, e). s < e) (zip (starts doc_single) (ends doc_single)) \<and>
   list_all (\<lambda>(s, e). \<not> overlap 5 9 s e) (zip (starts doc_single) (ends doc_single)) \<and>
   9 \<notin> set (starts doc_single) \<and>
   match_line doc_single (pred_fields ''5'' ''9'') 5 9 ''service'' init_counters = Inr init_counters"
proof -
  have a: "aligned doc_single" by (simp add: aligned_def doc_single_def)
  have b: "list_all (\<lambda>(s, e). s < e) (zip (starts doc_single) (ends doc_single))"
    by (simp add: doc_single_def)
  have c: "list_all (\<lambda>(s, e). \<not> overlap 5 9 s e) (zip (starts doc_single) (ends doc_single))"
    by (simp add: doc_single_def overlap_def)
  have d: "9 \<notin> set (starts doc_single)" by (simp add: doc_single_def)
  from no_overlap_no_match [OF a b c d] a b c d show ?thesis by simp
qed

text \<open>
  C3, as stated, fails in three ways; in each the prediction overlaps no gold span and a
  partial match is recorded. The gold span \<open>(5, 10)\<close> begins where the prediction
  \<open>(0, 5)\<close> ends. The gold span \<open>(10, 5)\<close> has its start after its end, and its end is
  the end of the prediction \<open>(0, 5)\<close>. The gold span \<open>(5, 5)\<close> is empty, lies inside
  the prediction \<open>(0, 25)\<close>, and a later gold span \<open>(30, 40)\<close> ends after the
  prediction does.
\<close>

theorem no_overlap_counterexample:
  "list_all (\<lambda>(s, e). \<not> overlap 0 5 s e) (zip (starts doc_adjacent) (ends doc_adjacent)) \<and>
   match_line doc_adjacent (pred_fields ''0'' ''5'') 0 5 ''service'' init_counters =
     Inr \<lparr>full_match = 0, partial_match = 1, full_cat_match = 0, partial_cat_match = 0,
          total = 0, fully_matched_pairs = [],
          partially_matched_pairs = [((5, 10, ''food'', ''pos''), pred_fields ''0'' ''5'')]\<rparr> \<and>
   list_all (\<lambda>(s, e). \<not> overlap 0 5 s e) (zip (starts doc_inverted) (ends doc_inverted)) \<and>
   match_line doc_inverted (pred_fields ''0'' ''5'') 0 5 ''service'' init_counters =
     Inr \<lparr>full_match = 0, partial_match = 1, full_cat_match = 0, partial_cat_match = 0,
          total = 0, fully_matched_pairs = [],
          partially_matched_pairs = [((10, 5, ''food'', ''pos''), pred_fields ''0'' ''5'')]\<rparr> \<and>
   list_all (\<lambda>(s, e). \<not> overlap 0 25 s e) (zip (starts doc_empty_span) (ends doc_empty_span)) \<and>
   match_line doc_empty_span (pred_fields ''0'' ''25'') 0 25 ''service'' init_counters =
     Inr \<lparr>full_match = 0, partial_match = 1, full_cat_match = 0, partial_cat_match = 0,
          total = 0, fully_matched_pairs = [],
          partially_matched_pairs = [((5, 5, ''food'', ''pos''), pred_fields ''0'' ''25'')]\<rparr>"
  by (simp add: doc_inverted_def doc_adjacent_def doc_empty_span_def overlap_def match_defs
        nth_py_def)

subsection \<open>The category counters of a full match\<close>










section \<open>Unknown documents\<close>

lemma process_line_unknown_doc:
  assumes "map_of gold (doc_id_of raw) = None"
  shows "isl (process_line gold raw c)"
proof (cases "process_line gold raw c")
  case (Inl e)
  then show ?thesis by simp
next
  case (Inr c')
  then obtain k d where "nth_py (fields_of raw) 0 = Inr k" "map_of gold k = Some d"
    by (auto simp: process_line_def Let_def bind_res_eq_Inr split: option.splits)
  then have "map_of gold (doc_id_of raw) = Some d"
    by (cases "fields_of raw") (auto simp: doc_id_of_def nth_py_eq_Inr)
  with assms show ?thesis by simp
qed

lemma match_loop_unknown_doc:
  "raw \<in> set ls \<Longrightarrow> map_of gold (doc_id_of raw) = None \<Longrightarrow> isl (match_loop gold ls c)"
proof (induction ls arbitrary: c)
  case Nil
  then show ?case by simp
next
  case (Cons l rest)
  show ?case
  proof (cases "process_line gold l c")
    case (Inl e)
    then show ?thesis by simp
  next
    case (Inr c')
    with process_line_unknown_doc [OF Cons.prems(2), of c] have "l \<noteq> raw" by auto
    with Cons.prems have "raw \<in> set rest" by simp
    from Cons.IH [OF this Cons.prems(2)] Inr show ?thesis by simp
  qed
qed

text \<open>
  C7. A prediction file with a line whose document id is no key of the gold dictionary
  makes \<open>compute_match\<close> raise: nothing is returned, so the line is neither skipped nor
  counted as unmatched.
\<close>

theorem unknown_document_fails:
  assumes "raw \<in> set pred_lines" and "map_of gold (doc_id_of raw) = None"
  shows "isl (compute_match pred_lines gold)"
  unfolding compute_match_def using assms by (rule match_loop_unknown_doc)

theorem unknown_document_fails_witness:
  "tsv [''e'', ''food'', ''x'', ''0'', ''5'', ''pos''] \<in> set [tsv (pred_fields ''0'' ''5''), tsv [''e'', ''food'', ''x'', ''0'', ''5'', ''pos'']] \<and>
   map_of gold_dict_ex (doc_id_of (tsv [''e'', ''food'', ''x'', ''0'', ''5'', ''pos''])) = None \<and>
   isl (compute_match [tsv (pred_fields ''0'' ''5''), tsv [''e'', ''food'', ''x'', ''0'', ''5'', ''pos'']] gold_dict_ex)"
proof -
  have a: "tsv [''e'', ''food'', ''x'', ''0'', ''5'', ''pos''] \<in> set [tsv (pred_fields ''0'' ''5''), tsv [''e'', ''food'', ''x'', ''0'', ''5'', ''pos'']]"
    by simp
  have b: "map_of gold_dict_ex (doc_id_of (tsv [''e'', ''food'', ''x'', ''0'', ''5'', ''pos''])) = None"
    by (simp add: gold_dict_ex_def doc_id_of_def eval_defs)
  from unknown_document_fails [OF a b] a b show ?thesis by simp
qed

text \<open>When the offsets of such a line are integers, the exception is the \<open>KeyError\<close>
  of the lookup.\<close>

lemma unknown_document_key_error:
  assumes "map_of gold (doc_id_of raw) = None"
      and "5 \<le> length (fields_of raw)"
      and "\<not> isl (py_int (fields_of raw ! 3))" and "\<not> isl (py_int (fields_of raw ! 4))"
  shows "process_line gold raw c = Inl KeyError"
proof -
  from assms(2) obtain k fs where "fields_of raw = k # fs" by (cases "fields_of raw") auto
  with assms show ?thesis
    by (cases "py_int (fields_of raw ! 3)"; cases "py_int (fields_of raw ! 4)")
       (auto simp: process_line_def Let_def doc_id_of_def nth_py_def)
qed

end
